theory Spec2Isabelle
  imports Complex_Main "HOL-Library.Word"
begin

section \<open>Python strings and integer ranges\<close>

text \<open>
  \<^verbatim>\<open>s.split(sep)\<close> for a one-character separator: the pieces between the
  occurrences of the separator, in order. The result is never empty
  (\<^verbatim>\<open>"".split(".") == [""]\<close>).
\<close>

fun split :: "char \<Rightarrow> string \<Rightarrow> string list" where
  "split sep [] = [[]]"
| "split sep (c # cs) =
     (if c = sep then [] # split sep cs
      else (case split sep cs of
              [] \<Rightarrow> [[c]]
            | w # ws \<Rightarrow> (c # w) # ws))"

text \<open>\<^verbatim>\<open>sep.join(pieces)\<close>.\<close>

fun join :: "string \<Rightarrow> string list \<Rightarrow> string" where
  "join sep [] = []"
| "join sep [w] = w"
| "join sep (w # v # ws) = w @ sep @ join sep (v # ws)"

text \<open>\<^verbatim>\<open>range(a, b)\<close> as the list it iterates over.\<close>

definition range_py :: "int \<Rightarrow> int \<Rightarrow> int list" where
  "range_py a b = [a..b - 1]"

text \<open>\<^verbatim>\<open>str(n)\<close> for an integer, as an f-string renders it.\<close>

fun str_nat :: "nat \<Rightarrow> string" where
  "str_nat n =
     (if n < 10 then [''0123456789'' ! n]
      else str_nat (n div 10) @ [''0123456789'' ! (n mod 10)])"

declare str_nat.simps [simp del]

definition str_int :: "int \<Rightarrow> string" where
  "str_int i = (if i < 0 then CHR ''-'' # str_nat (nat (- i)) else str_nat (nat i))"

section \<open>Records of \<^verbatim>\<open>cvat_utils.models\<close>\<close>

text \<open>
  Modelled from the spec: the classes of \<^verbatim>\<open>cvat_utils/models.py\<close>
  (\<^verbatim>\<open>FullTask\<close>, its segments and their job descriptors, \<^verbatim>\<open>FullTaskMetadata\<close>,
  \<^verbatim>\<open>Job\<close>, \<^verbatim>\<open>Frame\<close>) are not part of the sources at hand. The records carry
  the fields that the data model of the spec lists and that \<^verbatim>\<open>core.py\<close> reads
  or writes. \<^verbatim>\<open>Frame.job_id\<close> and \<^verbatim>\<open>Frame.status\<close> are optional: \<^verbatim>\<open>core.py\<close>
  builds a frame without them and compares \<^verbatim>\<open>job_id\<close> with \<^verbatim>\<open>None\<close>.
\<close>

record job_descriptor =
  jd_id :: int
  jd_status :: string
  jd_url :: string

record segment =
  seg_start_frame :: int
  seg_stop_frame :: int
  seg_jobs :: "job_descriptor list"

record full_task =
  task_name :: string
  task_segments :: "segment list"

record frame_meta =
  fm_name :: string
  fm_width :: int
  fm_height :: int

record full_task_metadata =
  meta_start_frame :: int
  meta_stop_frame :: int
  meta_frames :: "frame_meta list"

record job =
  job_id :: int
  job_status :: string
  job_url :: string
  job_start_frame :: int
  job_stop_frame :: int

record frame =
  frame_id :: string
  frame_frame_id :: int
  frame_file_name :: string
  frame_width :: int
  frame_height :: int
  frame_task_id :: int
  frame_task_name :: string
  frame_job_id :: "int option"
  frame_status :: "string option"

text \<open>
  The exceptions that the modelled functions raise. An \<^verbatim>\<open>assert\<close> that
  fails raises \<^verbatim>\<open>AssertionError\<close> with the message of the statement.
\<close>

datatype error =
  AssertionError string
  | KeyError string
  | HTTPError int
  | FileExistsError string
  | BadZipFile

section \<open>\<^verbatim>\<open>image_path_to_image_id\<close>\<close>

definition image_path_to_image_id :: "string \<Rightarrow> string" where
  "image_path_to_image_id image_path = join ''.'' (butlast (split CHR ''.'' image_path))"

section \<open>\<^verbatim>\<open>load_task_data\<close>\<close>

text \<open>
  The two fetches \<^verbatim>\<open>_load_task\<close> and \<^verbatim>\<open>_load_task_metadata\<close> are calls to
  the remote service; the model takes the records they return as arguments.
  What follows is the body of \<^verbatim>\<open>load_task_data\<close> after the fetches, with
  \<^verbatim>\<open>return_dict\<close> false.
\<close>

text \<open>The list comprehension that flattens the jobs of all segments.\<close>

definition derive_jobs :: "full_task \<Rightarrow> job list" where
  "derive_jobs task =
     concat (map (\<lambda>segment.
        map (\<lambda>j. \<lparr> job_id = jd_id j, job_status = jd_status j, job_url = jd_url j,
                    job_start_frame = seg_start_frame segment,
                    job_stop_frame = seg_stop_frame segment \<rparr>) (seg_jobs segment))
       (task_segments task))"

text \<open>
  The dictionary \<^verbatim>\<open>frames\<close>, as the list of its items in insertion order.
  The keys come from a range, so they are distinct and ascending.
\<close>

type_synonym frame_index = "(int \<times> frame) list"

definition build_frames :: "int \<Rightarrow> full_task \<Rightarrow> full_task_metadata \<Rightarrow> frame_index" where
  "build_frames task_id task meta =
     map (\<lambda>(frame_id, x).
        (frame_id,
         \<lparr> frame_id = image_path_to_image_id (fm_name x),
           frame_frame_id = frame_id,
           frame_file_name = last (split CHR ''/'' (fm_name x)),
           frame_width = fm_width x,
           frame_height = fm_height x,
           frame_task_id = task_id,
           frame_task_name = task_name task,
           frame_job_id = None,
           frame_status = None \<rparr>))
       (zip (range_py (meta_start_frame meta) (meta_stop_frame meta + 1)) (meta_frames meta))"

text \<open>The two assignments \<^verbatim>\<open>frames[frame_id].job_id = ...\<close> and \<^verbatim>\<open>.status = ...\<close>.\<close>

definition set_job :: "job \<Rightarrow> int \<Rightarrow> frame_index \<Rightarrow> frame_index" where
  "set_job job_data fid frames =
     map (\<lambda>(k, v). if k = fid
            then (k, v\<lparr> frame_job_id := Some (job_id job_data),
                        frame_status := Some (job_status job_data) \<rparr>)
            else (k, v)) frames"

definition missing_frame_msg :: "job \<Rightarrow> int \<Rightarrow> string" where
  "missing_frame_msg job_data fid =
     ''Unexpected CVAT data: job ('' @ str_int (job_id job_data)
       @ '') is missing a frame ('' @ str_int fid @ '').''"

definition missing_job_msg :: "int \<Rightarrow> string" where
  "missing_job_msg fid =
     ''Unexpected CVAT data: frame ('' @ str_int fid @ '') is missing job id.''"

text \<open>The inner loop over the frame ids of one job.\<close>

fun assign_frames :: "job \<Rightarrow> int list \<Rightarrow> frame_index \<Rightarrow> error + frame_index" where
  "assign_frames job_data [] frames = Inr frames"
| "assign_frames job_data (fid # fids) frames =
     (if fid \<notin> fst ` set frames
      then Inl (AssertionError (missing_frame_msg job_data fid))
      else assign_frames job_data fids (set_job job_data fid frames))"

text \<open>The outer loop over the jobs.\<close>

fun assign_jobs :: "job list \<Rightarrow> frame_index \<Rightarrow> error + frame_index" where
  "assign_jobs [] frames = Inr frames"
| "assign_jobs (job_data # jobs) frames =
     (case assign_frames job_data
             (range_py (job_start_frame job_data) (job_stop_frame job_data + 1)) frames of
        Inl e \<Rightarrow> Inl e
      | Inr frames' \<Rightarrow> assign_jobs jobs frames')"

text \<open>The final loop over \<^verbatim>\<open>frames.items()\<close>.\<close>

fun check_job_ids :: "frame_index \<Rightarrow> error + unit" where
  "check_job_ids [] = Inr ()"
| "check_job_ids ((fid, frame_data) # rest) =
     (if frame_job_id frame_data = None
      then Inl (AssertionError (missing_job_msg fid))
      else check_job_ids rest)"

definition load_task_data ::
  "int \<Rightarrow> full_task \<Rightarrow> full_task_metadata \<Rightarrow> error + (full_task \<times> job list \<times> frame_index)" where
  "load_task_data task_id task meta =
     (if \<not> list_all (\<lambda>x. length (seg_jobs x) = 1) (task_segments task)
      then Inl (AssertionError ''Unexpected CVAT data: one segment has multiple jobs.'')
      else
        let jobs = derive_jobs task;
            frames = build_frames task_id task meta
        in (case assign_jobs jobs frames of
              Inl e \<Rightarrow> Inl e
            | Inr frames' \<Rightarrow>
                (case check_job_ids frames' of
                   Inl e \<Rightarrow> Inl e
                 | Inr _ \<Rightarrow> Inr (task, jobs, frames'))))"

section \<open>\<^verbatim>\<open>download_images\<close>\<close>

text \<open>
  \<^verbatim>\<open>download_images\<close> talks to the remote service, the file system, the
  logger and the clock. The model records every such call, in order, as an
  event, and takes what the calls return from an environment: the configuration
  (\<^verbatim>\<open>config.API_URL\<close>, \<^verbatim>\<open>config.DOWNLOAD_THRESHOLD_GB\<close>), the answers of
  \<^verbatim>\<open>api_requests.get\<close> (the \<open>n\<close>-th answer to the export request, and the
  answer to the download request), the classifier \<^verbatim>\<open>cvat_utils.utils.is_image\<close>,
  the member names that \<^verbatim>\<open>zipfile\<close> finds in a payload (\<open>None\<close> when the
  payload is no archive), and the directories that exist before the call. None
  of these is part of the sources at hand.

  A response carries its status code, its body and the value of its
  \<^verbatim>\<open>Content-Length\<close> header as a number (\<open>None\<close> when the header is missing,
  where the source raises \<^verbatim>\<open>KeyError\<close>). The product with \<^verbatim>\<open>1e-9\<close> and the
  comparison with the threshold are taken over the reals: the rounding of the
  floating-point product is not modelled. Of the failures of the file system
  only the one that the source asks for is modelled, \<^verbatim>\<open>exist_ok=False\<close> on an
  existing directory.
\<close>

type_synonym bytes = "8 word list"

record response =
  resp_status_code :: int
  resp_content_length :: "real option"
  resp_content :: bytes

datatype archive_source = Buffer bytes | File string

text \<open>
  \<open>ReadContent\<close> is the access to \<^verbatim>\<open>resp.content\<close>, which loads the whole body
  into memory; \<open>Write p c\<close> is one \<^verbatim>\<open>f.write(chunk)\<close> on the file opened at
  \<open>p\<close>; \<open>Extractall src dir members\<close> is \<^verbatim>\<open>zip_ref.extractall(dir, members)\<close>
  on the archive opened from \<open>src\<close>, which writes the listed members and no
  other.
\<close>

datatype event =
    Get string "(string \<times> string) list" bool
  | is_Sleep: Sleep nat
  | LogError bytes
  | LogDebug string
  | ReadContent
  | RaiseForStatus
  | Makedirs string bool
  | OpenWrite string
  | is_Write: Write string bytes
  | Close string
  | is_Extractall: Extractall archive_source string "string list"

record env =
  API_URL :: string
  DOWNLOAD_THRESHOLD_GB :: real
  export_responses :: "nat \<Rightarrow> response"
  download_response :: response
  is_image :: "string \<Rightarrow> bool"
  zip_namelist :: "bytes \<Rightarrow> string list option"
  existing_dirs :: "string list"

text \<open>\<^verbatim>\<open>os.path.join(a, b)\<close> of \<^verbatim>\<open>posixpath\<close>.\<close>

definition os_path_join :: "string \<Rightarrow> string \<Rightarrow> string" where
  "os_path_join a b =
     (if take 1 b = ''/'' then b
      else if a = [] \<or> last a = CHR ''/'' then a @ b
      else a @ ''/'' @ b)"

text \<open>\<^verbatim>\<open>resp.iter_content(chunk_size)\<close>: the body in pieces of \<open>chunk_size\<close> bytes, the last one possibly shorter.\<close>

function iter_content :: "nat \<Rightarrow> bytes \<Rightarrow> bytes list" where
  "iter_content chunk_size body =
     (if chunk_size = 0 \<or> body = [] then []
      else take chunk_size body # iter_content chunk_size (drop chunk_size body))"
  by pat_completeness auto
termination
  by (relation "measure (\<lambda>(n, body). length body)") auto

declare iter_content.simps [simp del]

definition dataset_url :: "env \<Rightarrow> int \<Rightarrow> string" where
  "dataset_url e task_id = API_URL e @ ''/tasks/'' @ str_int task_id @ ''/dataset''"

definition export_params :: "(string \<times> string) list" where
  "export_params = [(''format'', ''CVAT for images 1.1'')]"

definition download_params :: "(string \<times> string) list" where
  "download_params = [(''format'', ''CVAT for images 1.1''), (''action'', ''download'')]"

text \<open>What one round of the polling loop does after a response other than 201.\<close>

definition round_events :: "response \<Rightarrow> event list" where
  "round_events resp =
     (if resp_status_code resp = 500 then [LogError (resp_content resp)] else []) @ [Sleep 5]"

text \<open>
  The loop \<^verbatim>\<open>while True\<close>, from its \<open>n\<close>-th request on. It has no bound, so
  it is a partial function: \<open>None\<close> stands for a loop that never ends. The
  result is the number of requests made and the events so far.
\<close>

partial_function (option) poll_export ::
  "env \<Rightarrow> string \<Rightarrow> nat \<Rightarrow> event list \<Rightarrow> (nat \<times> event list) option" where
  "poll_export e url n tr =
     (let resp = export_responses e n;
          tr' = tr @ [Get url export_params False]
      in if resp_status_code resp = 201 then Some (Suc n, tr')
         else poll_export e url (Suc n) (tr' @ round_events resp))"

declare poll_export.simps [code]

definition zip_path :: "string \<Rightarrow> int \<Rightarrow> string" where
  "zip_path output_path task_id = os_path_join output_path (''task-'' @ str_int task_id @ ''.zip'')"

text \<open>The choice between memory and file, with the download to the file.\<close>

definition fetch_archive ::
  "env \<Rightarrow> int \<Rightarrow> string \<Rightarrow> response \<Rightarrow> (error + archive_source) \<times> event list" where
  "fetch_archive e task_id output_path resp =
     (case resp_content_length resp of
        None \<Rightarrow> (Inl (KeyError ''Content-Length''), [])
      | Some content_length \<Rightarrow>
          let content_legth_gb = content_length * (1 / 10 ^ 9);
              keep_in_memory = (content_legth_gb \<le> DOWNLOAD_THRESHOLD_GB e)
          in if keep_in_memory then (Inr (Buffer (resp_content resp)), [ReadContent])
             else if 400 \<le> resp_status_code resp \<and> resp_status_code resp < 600
             then (Inl (HTTPError (resp_status_code resp)), [RaiseForStatus])
             else
               let buffer_or_file = zip_path output_path task_id
               in (Inr (File buffer_or_file),
                   [RaiseForStatus, Makedirs output_path True, OpenWrite buffer_or_file]
                   @ map (Write buffer_or_file) (iter_content 8192 (resp_content resp))
                   @ [Close buffer_or_file]))"

text \<open>The bytes that \<^verbatim>\<open>zipfile.ZipFile\<close> reads: the buffer, or what was written to the file.\<close>

definition archive_bytes :: "response \<Rightarrow> archive_source \<Rightarrow> bytes" where
  "archive_bytes resp src =
     (case src of Buffer b \<Rightarrow> b | File p \<Rightarrow> concat (iter_content 8192 (resp_content resp)))"

text \<open>The extraction of the image members.\<close>

definition extract_images ::
  "env \<Rightarrow> int \<Rightarrow> string \<Rightarrow> bool \<Rightarrow> response \<Rightarrow> archive_source
     \<Rightarrow> (error + string list) \<times> event list" where
  "extract_images e task_id output_path keep_image_path resp buffer_or_file =
     (let output_task_path =
            (if keep_image_path then output_path
             else os_path_join output_path (''task-'' @ str_int task_id));
          mk = [Makedirs output_task_path keep_image_path]
      in if \<not> keep_image_path \<and> output_task_path \<in> set (existing_dirs e)
         then (Inl (FileExistsError output_task_path), mk)
         else (case zip_namelist e (archive_bytes resp buffer_or_file) of
                 None \<Rightarrow> (Inl BadZipFile, mk)
               | Some namelist \<Rightarrow>
                   let files = filter (is_image e) namelist;
                       log = LogDebug (''Downloaded and extracted '' @ str_nat (length files)
                               @ '' files to '' @ [CHR 0x27] @ output_task_path @ [CHR 0x27] @ ''.'')
                   in (Inr (if keep_image_path then files
                            else map (os_path_join (''task-'' @ str_int task_id)) files),
                       mk @ [Extractall buffer_or_file output_task_path files, log])))"

definition download_images ::
  "env \<Rightarrow> int \<Rightarrow> string \<Rightarrow> bool \<Rightarrow> ((error + string list) \<times> event list) option" where
  "download_images e task_id output_path keep_image_path =
     (let url = dataset_url e task_id
      in case poll_export e url 0 [] of
           None \<Rightarrow> None
         | Some (n, tr) \<Rightarrow>
             let resp = download_response e;
                 tr = tr @ [Get url download_params True]
             in (case fetch_archive e task_id output_path resp of
                   (Inl err, tr') \<Rightarrow> Some (Inl err, tr @ tr')
                 | (Inr buffer_or_file, tr') \<Rightarrow>
                     (case extract_images e task_id output_path keep_image_path resp buffer_or_file of
                        (r, tr'') \<Rightarrow> Some (r, tr @ tr' @ tr''))))"

section \<open>The invariants of the data model\<close>

text \<open>
  The four structural invariants that the spec puts on a task and its metadata,
  each as a check on the two fetched records. A job covers the frame ids that
  the loop over its range visits; the frame index has the keys that the
  positional zip of the declared range with the frame descriptors produces.
\<close>

definition covers :: "job \<Rightarrow> int \<Rightarrow> bool" where
  "covers j f \<longleftrightarrow> f \<in> set (range_py (job_start_frame j) (job_stop_frame j + 1))"

definition index_keys :: "full_task_metadata \<Rightarrow> int list" where
  "index_keys meta =
     map fst (zip (range_py (meta_start_frame meta) (meta_stop_frame meta + 1)) (meta_frames meta))"

definition invariant1 :: "full_task \<Rightarrow> bool" where
  "invariant1 task \<longleftrightarrow> (\<forall>x \<in> set (task_segments task). length (seg_jobs x) = 1)"

definition invariant2 :: "full_task_metadata \<Rightarrow> bool" where
  "invariant2 meta \<longleftrightarrow>
     int (length (meta_frames meta)) = meta_stop_frame meta - meta_start_frame meta + 1"

definition invariant3 :: "full_task \<Rightarrow> full_task_metadata \<Rightarrow> bool" where
  "invariant3 task meta \<longleftrightarrow>
     (\<forall>j \<in> set (derive_jobs task).
        \<forall>f \<in> set (range_py (job_start_frame j) (job_stop_frame j + 1)). f \<in> set (index_keys meta))"

definition invariant4 :: "full_task \<Rightarrow> full_task_metadata \<Rightarrow> bool" where
  "invariant4 task meta \<longleftrightarrow>
     (\<forall>f \<in> set (index_keys meta). \<exists>j \<in> set (derive_jobs task). covers j f)"

text \<open>
  Two abbreviations for the proofs: what the two assignments of the inner loop
  do to one frame, and what all jobs in turn do to the frame with key \<open>k\<close>.
\<close>

definition stamp :: "job \<Rightarrow> frame \<Rightarrow> frame" where
  "stamp j v = v\<lparr> frame_job_id := Some (job_id j), frame_status := Some (job_status j) \<rparr>"

definition last_write :: "job list \<Rightarrow> int \<Rightarrow> frame \<Rightarrow> frame" where
  "last_write jobs k v = foldl (\<lambda>v j. if covers j k then stamp j v else v) v jobs"

text \<open>The frame index after the loop over all jobs has run without an error.\<close>

definition merged :: "int \<Rightarrow> full_task \<Rightarrow> full_task_metadata \<Rightarrow> frame_index" where
  "merged task_id task meta =
     map (\<lambda>(k, v). (k, last_write (derive_jobs task) k v)) (build_frames task_id task meta)"


section \<open>Concrete inputs used to run the definitions\<close>

definition two_dotless_meta :: full_task_metadata where
  "two_dotless_meta =
     \<lparr> meta_start_frame = 0, meta_stop_frame = 1,
       meta_frames = [\<lparr> fm_name = ''a/scan'', fm_width = 4, fm_height = 3 \<rparr>,
                      \<lparr> fm_name = ''b/photo'', fm_width = 4, fm_height = 3 \<rparr>] \<rparr>"

definition png_frames :: "nat \<Rightarrow> frame_meta list" where
  "png_frames n =
     map (\<lambda>i. \<lparr> fm_name = ''imgs/f'' @ str_nat i @ ''.png'', fm_width = 640, fm_height = 480 \<rparr>)
       [0..<n]"

definition scenario_task :: full_task where
  "scenario_task =
     \<lparr> task_name = ''street'',
       task_segments =
         [\<lparr> seg_start_frame = 0, seg_stop_frame = 4,
            seg_jobs = [\<lparr> jd_id = 11, jd_status = ''annotation'', jd_url = ''http://cvat/api/jobs/11'' \<rparr>] \<rparr>,
          \<lparr> seg_start_frame = 5, seg_stop_frame = 9,
            seg_jobs = [\<lparr> jd_id = 12, jd_status = ''completed'', jd_url = ''http://cvat/api/jobs/12'' \<rparr>] \<rparr>] \<rparr>"

definition scenario_meta :: full_task_metadata where
  "scenario_meta = \<lparr> meta_start_frame = 0, meta_stop_frame = 9, meta_frames = png_frames 10 \<rparr>"

definition one_segment_task :: full_task where
  "one_segment_task =
     \<lparr> task_name = ''yard'',
       task_segments =
         [\<lparr> seg_start_frame = 0, seg_stop_frame = 1,
            seg_jobs = [\<lparr> jd_id = 31, jd_status = ''annotation'', jd_url = ''http://cvat/api/jobs/31'' \<rparr>] \<rparr>] \<rparr>"

definition surplus_meta :: full_task_metadata where
  "surplus_meta = \<lparr> meta_start_frame = 0, meta_stop_frame = 1, meta_frames = png_frames 3 \<rparr>"

definition short_meta :: full_task_metadata where
  "short_meta = \<lparr> meta_start_frame = 0, meta_stop_frame = 2, meta_frames = png_frames 2 \<rparr>"

definition two_jobs_task_a :: full_task where
  "two_jobs_task_a =
     \<lparr> task_name = ''yard'',
       task_segments =
         [\<lparr> seg_start_frame = 0, seg_stop_frame = 4,
            seg_jobs = [\<lparr> jd_id = 41, jd_status = ''annotation'', jd_url = ''http://cvat/api/jobs/41'' \<rparr>,
                        \<lparr> jd_id = 42, jd_status = ''validation'', jd_url = ''http://cvat/api/jobs/42'' \<rparr>] \<rparr>,
          \<lparr> seg_start_frame = 5, seg_stop_frame = 9,
            seg_jobs = [\<lparr> jd_id = 43, jd_status = ''annotation'', jd_url = ''http://cvat/api/jobs/43'' \<rparr>] \<rparr>] \<rparr>"

definition two_jobs_task_b :: full_task where
  "two_jobs_task_b =
     \<lparr> task_name = ''yard'',
       task_segments =
         [\<lparr> seg_start_frame = 0, seg_stop_frame = 4,
            seg_jobs = [\<lparr> jd_id = 41, jd_status = ''annotation'', jd_url = ''http://cvat/api/jobs/41'' \<rparr>] \<rparr>,
          \<lparr> seg_start_frame = 5, seg_stop_frame = 9,
            seg_jobs = [\<lparr> jd_id = 43, jd_status = ''annotation'', jd_url = ''http://cvat/api/jobs/43'' \<rparr>,
                        \<lparr> jd_id = 44, jd_status = ''validation'', jd_url = ''http://cvat/api/jobs/44'' \<rparr>] \<rparr>] \<rparr>"

definition overlap_task :: full_task where
  "overlap_task =
     \<lparr> task_name = ''street'',
       task_segments =
         [\<lparr> seg_start_frame = 0, seg_stop_frame = 5,
            seg_jobs = [\<lparr> jd_id = 21, jd_status = ''annotation'', jd_url = ''http://cvat/api/jobs/21'' \<rparr>] \<rparr>,
          \<lparr> seg_start_frame = 3, seg_stop_frame = 9,
            seg_jobs = [\<lparr> jd_id = 22, jd_status = ''completed'', jd_url = ''http://cvat/api/jobs/22'' \<rparr>] \<rparr>] \<rparr>"

definition late_task :: full_task where
  "late_task =
     \<lparr> task_name = ''street'',
       task_segments =
         [\<lparr> seg_start_frame = 0, seg_stop_frame = 4,
            seg_jobs = [\<lparr> jd_id = 11, jd_status = ''annotation'', jd_url = ''http://cvat/api/jobs/11'' \<rparr>] \<rparr>,
          \<lparr> seg_start_frame = 5, seg_stop_frame = 11,
            seg_jobs = [\<lparr> jd_id = 12, jd_status = ''completed'', jd_url = ''http://cvat/api/jobs/12'' \<rparr>] \<rparr>] \<rparr>"

definition gap_task :: full_task where
  "gap_task =
     \<lparr> task_name = ''street'',
       task_segments =
         [\<lparr> seg_start_frame = 0, seg_stop_frame = 3,
            seg_jobs = [\<lparr> jd_id = 11, jd_status = ''annotation'', jd_url = ''http://cvat/api/jobs/11'' \<rparr>] \<rparr>,
          \<lparr> seg_start_frame = 6, seg_stop_frame = 9,
            seg_jobs = [\<lparr> jd_id = 12, jd_status = ''completed'', jd_url = ''http://cvat/api/jobs/12'' \<rparr>] \<rparr>] \<rparr>"

definition jpg_or_png :: "string \<Rightarrow> bool" where
  "jpg_or_png x = (let ext = last (split CHR ''.'' x) in ext = ''jpg'' \<or> ext = ''png'')"

definition status_response :: "int \<Rightarrow> response" where
  "status_response c = \<lparr> resp_status_code = c, resp_content_length = None, resp_content = [] \<rparr>"

definition demo_env :: "real \<Rightarrow> env" where
  "demo_env threshold =
     \<lparr> API_URL = ''http://cvat/api'',
       DOWNLOAD_THRESHOLD_GB = threshold,
       export_responses = (\<lambda>n. status_response (if n = 1 then 500 else if n < 3 then 202 else 201)),
       download_response =
         \<lparr> resp_status_code = 200, resp_content_length = Some 5, resp_content = [80, 75, 3, 4, 0] \<rparr>,
       is_image = jpg_or_png,
       zip_namelist = (\<lambda>b. if take 2 b = [80, 75]
                             then Some [''annotations.xml'', ''images/a.jpg'', ''images/b.png'']
                             else None),
       existing_dirs = [''out''] \<rparr>"

section \<open>Splitting and joining\<close>

lemma split_not_Nil: "split c s \<noteq> []"
  by (induction s) (auto split: list.splits)

lemma join_Cons_head: "join sep ((a # w) # ws) = a # join sep (w # ws)"
  by (cases ws) auto

lemma join_split: "join [c] (split c s) = s"
  by (induction s) (auto split: list.splits simp: split_not_Nil join_Cons_head)

lemma split_no_sep: "c \<notin> set s \<Longrightarrow> split c s = [s]"
  by (induction s) (auto split: list.splits)

lemma split_last_sep: "c \<notin> set e \<Longrightarrow> split c (s @ c # e) = split c s @ [e]"
  by (induction s) (auto split: list.splits simp: split_no_sep split_not_Nil)

section \<open>The image id\<close>

lemma image_id_no_dot: "CHR ''.'' \<notin> set p \<Longrightarrow> image_path_to_image_id p = []"
  by (simp add: image_path_to_image_id_def split_no_sep)

lemma image_id_last_dot:
  "CHR ''.'' \<notin> set e \<Longrightarrow> image_path_to_image_id (s @ CHR ''.'' # e) = s"
  by (simp add: image_path_to_image_id_def split_last_sep join_split)

lemma image_id_shorter:
  "image_path_to_image_id p \<noteq> [] \<Longrightarrow> length (image_path_to_image_id p) < length p"
proof (cases "CHR ''.'' \<in> set p")
  case True
  then obtain s e where p: "p = s @ CHR ''.'' # e" and e: "CHR ''.'' \<notin> set e"
    using split_list_last by fastforce
  show ?thesis unfolding p by (simp add: image_id_last_dot[OF e])
next
  case False
  assume "image_path_to_image_id p \<noteq> []"
  with False show ?thesis by (simp add: image_id_no_dot)
qed

lemma image_id_fixed_point: "image_path_to_image_id q = q \<longleftrightarrow> q = []"
proof
  assume h: "image_path_to_image_id q = q"
  show "q = []"
  proof (rule ccontr)
    assume "q \<noteq> []"
    with h have "image_path_to_image_id q \<noteq> []" by simp
    then have "length (image_path_to_image_id q) < length q" by (rule image_id_shorter)
    then show False unfolding h by simp
  qed
next
  assume "q = []"
  then show "image_path_to_image_id q = q" by (simp add: image_path_to_image_id_def)
qed

text \<open>
  Claim C3, as stated, asks for \<open>image_path_to_image_id\<close> to be idempotent. It is
  not: the second application strips one more segment. From \<^verbatim>\<open>"dir/img.png"\<close> the
  first application gives \<^verbatim>\<open>"dir/img"\<close>, which has no dot left, so the second
  gives the empty string.
\<close>

theorem image_id_not_idempotent:
  "image_path_to_image_id (image_path_to_image_id ''dir/img.png'')
     \<noteq> image_path_to_image_id ''dir/img.png''"
  by (simp add: image_path_to_image_id_def)

text \<open>
  Claim C3, amended: \<open>image_path_to_image_id\<close> strips the last dot-delimited
  segment together with its dot, so a path \<open>s\<close>.\<open>e\<close> with no dot in \<open>e\<close> maps to
  \<open>s\<close>; \<open>load_task_data\<close> gives the frame of the path \<^verbatim>\<open>"dir/img.png"\<close> the
  id \<^verbatim>\<open>"dir/img"\<close> and the file name \<^verbatim>\<open>"img.png"\<close>; and applying the derivation
  twice gives the same as applying it once exactly when the first result is the
  empty string.
\<close>

theorem image_id_strips_last_segment:
  "(CHR ''.'' \<notin> set e \<longrightarrow> image_path_to_image_id (s @ ''.'' @ e) = s)
   \<and> map (\<lambda>(k, fr). (k, frame_id fr, frame_file_name fr))
        (build_frames task_id task
           \<lparr> meta_start_frame = a, meta_stop_frame = a,
             meta_frames = [\<lparr> fm_name = ''dir/img.png'', fm_width = w, fm_height = h \<rparr>] \<rparr>)
       = [(a, ''dir/img'', ''img.png'')]
   \<and> (image_path_to_image_id (image_path_to_image_id p) = image_path_to_image_id p
        \<longleftrightarrow> image_path_to_image_id p = [])"
proof (intro conjI impI)
  assume "CHR ''.'' \<notin> set e"
  then show "image_path_to_image_id (s @ ''.'' @ e) = s"
    by (simp add: image_id_last_dot)
next
  show "map (\<lambda>(k, fr). (k, frame_id fr, frame_file_name fr))
        (build_frames task_id task
           \<lparr> meta_start_frame = a, meta_stop_frame = a,
             meta_frames = [\<lparr> fm_name = ''dir/img.png'', fm_width = w, fm_height = h \<rparr>] \<rparr>)
       = [(a, ''dir/img'', ''img.png'')]"
    by (simp add: build_frames_def range_py_def image_path_to_image_id_def)
next
  show "image_path_to_image_id (image_path_to_image_id p) = image_path_to_image_id p
        \<longleftrightarrow> image_path_to_image_id p = []"
    by (rule image_id_fixed_point)
qed

theorem image_id_strips_last_segment_witness:
  "CHR ''.'' \<notin> set ''gz''
   \<and> image_path_to_image_id ''data/a.tar.gz'' = ''data/a.tar''
   \<and> image_path_to_image_id (image_path_to_image_id ''data/a.tar.gz'') = ''data/a''
   \<and> image_path_to_image_id ''.hidden'' = []
   \<and> image_path_to_image_id (image_path_to_image_id ''.hidden'')
       = image_path_to_image_id ''.hidden''"
  using image_id_strips_last_segment [of "''gz''" "''data/a.tar''" 1 undefined 0 0 0 "''.hidden''"]
  by (simp add: image_path_to_image_id_def)

text \<open>
  Claim C10: a path without a dot has the empty image id, so all frames of a
  task whose paths have no extension get the same, empty, image id.
\<close>

theorem image_id_extensionless_empty:
  "(CHR ''.'' \<notin> set p \<longrightarrow> image_path_to_image_id p = [])
   \<and> ((\<forall>x \<in> set (meta_frames meta). CHR ''.'' \<notin> set (fm_name x))
        \<longrightarrow> (\<forall>(k, fr) \<in> set (build_frames task_id task meta). frame_id fr = []))"
  by (auto simp: build_frames_def image_id_no_dot dest!: set_zip_rightD)

theorem image_id_extensionless_empty_witness:
  "CHR ''.'' \<notin> set ''dir/img''
   \<and> image_path_to_image_id ''dir/img'' = []
   \<and> list_all (\<lambda>x. CHR ''.'' \<notin> set (fm_name x)) (meta_frames two_dotless_meta)
   \<and> map (\<lambda>(k, fr). (k, frame_id fr))
        (build_frames 7 \<lparr> task_name = ''t'', task_segments = [] \<rparr> two_dotless_meta)
       = [(0, []), (1, [])]"
  using image_id_extensionless_empty
    [of "''dir/img''" two_dotless_meta 7 "\<lparr> task_name = ''t'', task_segments = [] \<rparr>"]
  by (simp add: two_dotless_meta_def build_frames_def range_py_def upto.simps)

section \<open>The loop over the jobs\<close>

lemma covers_iff: "covers j f \<longleftrightarrow> job_start_frame j \<le> f \<and> f \<le> job_stop_frame j"
  by (auto simp: covers_def range_py_def)

lemma stamp_stamp: "stamp j (stamp j' v) = stamp j v"
  by (simp add: stamp_def)

lemma set_job_stamp:
  "set_job j f frames = map (\<lambda>(k, v). (k, if k = f then stamp j v else v)) frames"
  by (auto simp: set_job_def stamp_def)

lemma keys_set_job: "map fst (set_job j f frames) = map fst frames"
  by (induction frames) (auto simp: set_job_def)

lemma keys_set_job': "fst ` set (set_job j f frames) = fst ` set frames"
  using keys_set_job[of j f frames] by (metis set_map)

lemma keys_build_frames: "map fst (build_frames task_id task meta) = index_keys meta"
  by (simp add: build_frames_def index_keys_def case_prod_beta comp_def)

lemma assign_frames_ok:
  "set fids \<subseteq> fst ` set frames \<Longrightarrow>
   assign_frames j fids frames
     = Inr (map (\<lambda>(k, v). (k, if k \<in> set fids then stamp j v else v)) frames)"
proof (induction fids arbitrary: frames)
  case Nil
  then show ?case by (simp add: case_prod_beta)
next
  case (Cons f fids)
  have "set fids \<subseteq> fst ` set (set_job j f frames)"
    using Cons.prems by (simp add: keys_set_job')
  from Cons.IH[OF this] Cons.prems show ?case
    by (auto simp: set_job_stamp stamp_stamp)
qed

lemma assign_frames_fail:
  "set as \<subseteq> fst ` set frames \<Longrightarrow> f \<notin> fst ` set frames \<Longrightarrow>
   assign_frames j (as @ f # bs) frames = Inl (AssertionError (missing_frame_msg j f))"
proof (induction as arbitrary: frames)
  case Nil
  then show ?case by simp
next
  case (Cons a as)
  have "set as \<subseteq> fst ` set (set_job j a frames)" "f \<notin> fst ` set (set_job j a frames)"
    using Cons.prems by (simp_all add: keys_set_job')
  from Cons.IH[OF this] Cons.prems show ?case by simp
qed

lemma last_write_Cons:
  "last_write (j # jobs) k v = last_write jobs k (if covers j k then stamp j v else v)"
  by (simp add: last_write_def)

lemma assign_jobs_ok:
  "\<forall>j \<in> set jobs. \<forall>f. covers j f \<longrightarrow> f \<in> fst ` set frames \<Longrightarrow>
   assign_jobs jobs frames = Inr (map (\<lambda>(k, v). (k, last_write jobs k v)) frames)"
proof (induction jobs arbitrary: frames)
  case Nil
  then show ?case by (simp add: last_write_def case_prod_beta)
next
  case (Cons j jobs)
  let ?fr = "map (\<lambda>(k, v). (k, if covers j k then stamp j v else v)) frames"
  have sub: "set (range_py (job_start_frame j) (job_stop_frame j + 1)) \<subseteq> fst ` set frames"
    using Cons.prems by (auto simp: covers_def)
  have step: "assign_frames j (range_py (job_start_frame j) (job_stop_frame j + 1)) frames = Inr ?fr"
    using assign_frames_ok[OF sub, of j] by (simp add: covers_def)
  have keys: "fst ` set ?fr = fst ` set frames" by force
  have "\<forall>j \<in> set jobs. \<forall>f. covers j f \<longrightarrow> f \<in> fst ` set ?fr"
    using Cons.prems unfolding keys by simp
  from Cons.IH[OF this] show ?case
    by (simp add: step last_write_Cons case_prod_beta comp_def)
qed

lemma assign_jobs_append:
  "assign_jobs (pre @ rest) frames =
     (case assign_jobs pre frames of Inl e \<Rightarrow> Inl e | Inr fr \<Rightarrow> assign_jobs rest fr)"
  by (induction pre arbitrary: frames) (auto split: sum.splits)

lemma assign_jobs_fail:
  assumes pre: "\<forall>j' \<in> set pre. \<forall>f. covers j' f \<longrightarrow> f \<in> fst ` set frames"
    and rng: "range_py (job_start_frame j) (job_stop_frame j + 1) = as @ f # bs"
    and as: "set as \<subseteq> fst ` set frames" and f: "f \<notin> fst ` set frames"
  shows "assign_jobs (pre @ j # post) frames = Inl (AssertionError (missing_frame_msg j f))"
proof -
  let ?fr = "map (\<lambda>(k, v). (k, last_write pre k v)) frames"
  have keys: "fst ` set ?fr = fst ` set frames" by force
  have "assign_frames j (as @ f # bs) ?fr = Inl (AssertionError (missing_frame_msg j f))"
    by (rule assign_frames_fail) (use as f keys in auto)
  then show ?thesis
    by (simp add: assign_jobs_append assign_jobs_ok[OF pre] rng)
qed

lemma check_job_ids_ok:
  "\<forall>(k, v) \<in> set frames. frame_job_id v \<noteq> None \<Longrightarrow> check_job_ids frames = Inr ()"
  by (induction frames) auto

lemma check_job_ids_fail:
  "\<forall>(k', v') \<in> set as. frame_job_id v' \<noteq> None \<Longrightarrow> frame_job_id v = None \<Longrightarrow>
   check_job_ids (as @ (k, v) # bs) = Inl (AssertionError (missing_job_msg k))"
  by (induction as) auto

lemma job_id_last_write:
  "frame_job_id (last_write jobs k v) = None
     \<longleftrightarrow> frame_job_id v = None \<and> (\<forall>j \<in> set jobs. \<not> covers j k)"
  by (induction jobs arbitrary: v) (auto simp: last_write_Cons last_write_def stamp_def)

lemma last_write_last:
  "covers j k \<Longrightarrow> \<forall>j' \<in> set post. \<not> covers j' k \<Longrightarrow>
   last_write (pre @ j # post) k v = stamp j (last_write pre k v)"
  by (induction post rule: rev_induct) (auto simp: last_write_def)

lemma last_write_stamp:
  "covers j k \<Longrightarrow> \<forall>j' \<in> set post. \<not> covers j' k \<Longrightarrow>
   frame_job_id (last_write (pre @ j # post) k v) = Some (job_id j)
   \<and> frame_status (last_write (pre @ j # post) k v) = Some (job_status j)"
  by (simp add: last_write_last stamp_def)

section \<open>The result of \<open>load_task_data\<close>\<close>

lemma keys_merged: "map fst (merged task_id task meta) = index_keys meta"
proof -
  have "map fst (merged task_id task meta) = map fst (build_frames task_id task meta)"
    unfolding merged_def by (induction "build_frames task_id task meta") auto
  then show ?thesis by (simp add: keys_build_frames)
qed

lemma build_frames_no_job: "(k, v) \<in> set (build_frames task_id task meta) \<Longrightarrow> frame_job_id v = None"
  by (auto simp: build_frames_def)

lemma merged_job_id:
  "(k, v) \<in> set (merged task_id task meta) \<Longrightarrow>
   frame_job_id v = None \<longleftrightarrow> (\<forall>j \<in> set (derive_jobs task). \<not> covers j k)"
  by (auto simp: merged_def job_id_last_write build_frames_no_job)

lemma invariant1_list_all:
  "list_all (\<lambda>x. length (seg_jobs x) = Suc 0) (task_segments task) \<longleftrightarrow> invariant1 task"
  by (simp add: invariant1_def list_all_iff)

lemma build_keys_set: "fst ` set (build_frames task_id task meta) = set (index_keys meta)"
  using keys_build_frames[of task_id task meta] by (metis set_map)

lemma invariant3_covers:
  "invariant3 task meta \<longleftrightarrow>
     (\<forall>j \<in> set (derive_jobs task). \<forall>f. covers j f \<longrightarrow> f \<in> fst ` set (build_frames task_id task meta))"
  by (auto simp: invariant3_def covers_def build_keys_set)

lemma load_task_data_merge:
  assumes "invariant1 task" and "invariant3 task meta"
  shows "load_task_data task_id task meta =
     (case check_job_ids (merged task_id task meta) of
        Inl e \<Rightarrow> Inl e
      | Inr _ \<Rightarrow> Inr (task, derive_jobs task, merged task_id task meta))"
proof -
  have "assign_jobs (derive_jobs task) (build_frames task_id task meta)
          = Inr (merged task_id task meta)"
    unfolding merged_def
    by (rule assign_jobs_ok) (use assms(2) invariant3_covers in blast)
  then show ?thesis
    using assms(1) by (simp add: load_task_data_def invariant1_list_all)
qed

lemma load_task_data_ok:
  assumes "invariant1 task" and "invariant3 task meta" and "invariant4 task meta"
  shows "load_task_data task_id task meta = Inr (task, derive_jobs task, merged task_id task meta)"
proof -
  have "frame_job_id v \<noteq> None" if kv: "(k, v) \<in> set (merged task_id task meta)" for k v
  proof
    assume n: "frame_job_id v = None"
    from kv have "k \<in> set (index_keys meta)"
      using keys_merged[of task_id task meta] by (metis fst_conv image_eqI set_map)
    with assms(3) obtain j where "j \<in> set (derive_jobs task)" "covers j k"
      by (auto simp: invariant4_def)
    with merged_job_id[OF kv] n show False by blast
  qed
  then have "\<forall>(k, v) \<in> set (merged task_id task meta). frame_job_id v \<noteq> None" by blast
  then have "check_job_ids (merged task_id task meta) = Inr ()" by (rule check_job_ids_ok)
  then show ?thesis by (simp add: load_task_data_merge[OF assms(1,2)])
qed

lemma load_task_data_segment_error:
  "\<not> invariant1 task \<Longrightarrow>
   load_task_data task_id task meta
     = Inl (AssertionError ''Unexpected CVAT data: one segment has multiple jobs.'')"
  by (simp add: load_task_data_def invariant1_list_all)

lemma load_task_data_missing_frame:
  assumes "invariant1 task" and "\<not> invariant3 task meta"
  shows "\<exists>pre j post f. derive_jobs task = pre @ j # post
     \<and> (\<forall>j' \<in> set pre. \<forall>f'. covers j' f' \<longrightarrow> f' \<in> set (index_keys meta))
     \<and> covers j f \<and> f \<notin> set (index_keys meta)
     \<and> (\<forall>f'. covers j f' \<and> f' < f \<longrightarrow> f' \<in> set (index_keys meta))
     \<and> load_task_data task_id task meta = Inl (AssertionError (missing_frame_msg j f))"
proof -
  let ?K = "set (index_keys meta)"
  let ?bad = "\<lambda>j. \<exists>f \<in> set (range_py (job_start_frame j) (job_stop_frame j + 1)). f \<notin> ?K"
  from assms(2) have "\<exists>j \<in> set (derive_jobs task). ?bad j"
    by (auto simp: invariant3_def)
  then obtain pre j post where jobs: "derive_jobs task = pre @ j # post"
    and bad: "?bad j" and pre: "\<forall>j' \<in> set pre. \<not> ?bad j'"
    using split_list_first_prop[of "derive_jobs task" ?bad] by blast
  from bad obtain as f bs
    where rng: "range_py (job_start_frame j) (job_stop_frame j + 1) = as @ f # bs"
      and f: "f \<notin> ?K" and as: "\<forall>a \<in> set as. \<not> a \<notin> ?K"
    using split_list_first_prop[of "range_py (job_start_frame j) (job_stop_frame j + 1)" "\<lambda>f. f \<notin> ?K"]
    by blast
  have cov: "covers j f" by (simp add: covers_def rng)
  have pre': "\<forall>j' \<in> set pre. \<forall>f'. covers j' f' \<longrightarrow> f' \<in> ?K"
    using pre by (auto simp: covers_def)
  have "sorted (as @ f # bs)" unfolding rng[symmetric] range_py_def by simp
  then have bs: "\<forall>b \<in> set bs. f \<le> b" by (auto simp: sorted_append)
  have low: "\<forall>f'. covers j f' \<and> f' < f \<longrightarrow> f' \<in> ?K"
  proof (intro allI impI)
    fix f' assume h: "covers j f' \<and> f' < f"
    then have "f' \<in> set (as @ f # bs)" by (auto simp: covers_def rng)
    with h bs have "f' \<in> set as" by auto
    with as show "f' \<in> ?K" by blast
  qed
  have "assign_jobs (pre @ j # post) (build_frames task_id task meta)
          = Inl (AssertionError (missing_frame_msg j f))"
    by (rule assign_jobs_fail[OF _ rng]) (use pre' as f in \<open>auto simp: build_keys_set\<close>)
  then have "load_task_data task_id task meta = Inl (AssertionError (missing_frame_msg j f))"
    using assms(1) by (simp add: load_task_data_def invariant1_list_all jobs)
  with jobs pre' cov f low show ?thesis by blast
qed

lemma load_task_data_missing_job:
  assumes "invariant1 task" and "invariant3 task meta" and "\<not> invariant4 task meta"
  shows "\<exists>as f bs. index_keys meta = as @ f # bs
     \<and> (\<forall>k \<in> set as. \<exists>j \<in> set (derive_jobs task). covers j k)
     \<and> (\<forall>j \<in> set (derive_jobs task). \<not> covers j f)
     \<and> load_task_data task_id task meta = Inl (AssertionError (missing_job_msg f))"
proof -
  let ?M = "merged task_id task meta"
  let ?none = "\<lambda>(k, v). frame_job_id v = None"
  from assms(3) obtain f0 where f0: "f0 \<in> set (index_keys meta)"
    and nc: "\<forall>j \<in> set (derive_jobs task). \<not> covers j f0"
    by (auto simp: invariant4_def)
  from f0 obtain v0 where kv0: "(f0, v0) \<in> set ?M"
    using keys_merged[of task_id task meta] by (metis (no_types, lifting) fst_conv imageE prod.collapse set_map)
  with nc have "?none (f0, v0)" using merged_job_id[OF kv0] by simp
  with kv0 have "\<exists>x \<in> set ?M. ?none x" by blast
  then obtain as x bs where M: "?M = as @ x # bs" and x: "?none x"
    and as: "\<forall>y \<in> set as. \<not> ?none y"
    using split_list_first_prop[of ?M ?none] by blast
  obtain f v where xv: "x = (f, v)" by (cases x)
  have keys: "index_keys meta = map fst as @ f # map fst bs"
    using keys_merged[of task_id task meta] by (simp add: M xv)
  have "(f, v) \<in> set ?M" by (simp add: M xv)
  from merged_job_id[OF this] x have unc: "\<forall>j \<in> set (derive_jobs task). \<not> covers j f"
    by (simp add: xv)
  have cov: "\<forall>k \<in> set (map fst as). \<exists>j \<in> set (derive_jobs task). covers j k"
  proof
    fix k assume "k \<in> set (map fst as)"
    then obtain w where kw: "(k, w) \<in> set as" by auto
    then have "(k, w) \<in> set ?M" by (simp add: M)
    from merged_job_id[OF this] as kw show "\<exists>j \<in> set (derive_jobs task). covers j k" by auto
  qed
  have "check_job_ids (as @ (f, v) # bs) = Inl (AssertionError (missing_job_msg f))"
    by (rule check_job_ids_fail) (use as x xv in auto)
  then have "load_task_data task_id task meta = Inl (AssertionError (missing_job_msg f))"
    by (simp add: load_task_data_merge[OF assms(1,2)] M xv)
  with keys cov unc show ?thesis by blast
qed

lemma flatten_length:
  "\<forall>x \<in> set segs. length (seg_jobs x) = 1 \<Longrightarrow>
   length (concat (map (\<lambda>segment. map (g segment) (seg_jobs segment)) segs)) = length segs"
  by (induction segs) auto

lemma derive_jobs_length:
  "invariant1 task \<Longrightarrow> length (derive_jobs task) = length (task_segments task)"
  unfolding invariant1_def derive_jobs_def by (rule flatten_length)

lemma index_keys_take:
  "index_keys meta = take (length (meta_frames meta))
                       (range_py (meta_start_frame meta) (meta_stop_frame meta + 1))"
proof -
  have "take (min (length xs) n) xs = take n xs" for n and xs :: "int list"
    by (cases "n \<le> length xs") (simp_all add: min_def)
  then show ?thesis by (simp add: index_keys_def map_fst_zip_take)
qed

lemma index_keys_full:
  "invariant2 meta \<Longrightarrow> index_keys meta = [meta_start_frame meta .. meta_stop_frame meta]"
proof -
  assume "invariant2 meta"
  then have "int (length (meta_frames meta)) = meta_stop_frame meta - meta_start_frame meta + 1"
    by (simp only: invariant2_def)
  then have "length (meta_frames meta) = nat (meta_stop_frame meta - meta_start_frame meta + 1)"
    by linarith
  then have "length (meta_frames meta) = length [meta_start_frame meta .. meta_stop_frame meta]"
    by (simp only: length_upto)
  then show ?thesis by (simp add: index_keys_take range_py_def)
qed

lemma merged_last_cover:
  assumes "(k, fr) \<in> set (merged task_id task meta)"
    and "derive_jobs task = pre @ j # post" and "covers j k" and "\<forall>j' \<in> set post. \<not> covers j' k"
  shows "frame_job_id fr = Some (job_id j) \<and> frame_status fr = Some (job_status j)"
proof -
  from assms(1) obtain v where "fr = last_write (derive_jobs task) k v"
    by (auto simp: merged_def)
  then show ?thesis using last_write_stamp[OF assms(3,4)] by (simp add: assms(2))
qed

lemma load_task_data_Inr:
  assumes "load_task_data task_id task meta = Inr r"
  shows "invariant1 task \<and> invariant3 task meta \<and> invariant4 task meta
         \<and> r = (task, derive_jobs task, merged task_id task meta)"
proof -
  have 1: "invariant1 task"
    using assms load_task_data_segment_error[of task task_id meta] by auto
  have 3: "invariant3 task meta"
    using assms load_task_data_missing_frame[OF 1, of meta task_id] by auto
  have 4: "invariant4 task meta"
    using assms load_task_data_missing_job[OF 1 3, of task_id] by auto
  from load_task_data_ok[OF 1 3 4, of task_id] assms 1 3 4 show ?thesis by simp
qed

section \<open>Valid tasks\<close>

text \<open>
  Claim C1: for a task and metadata that satisfy invariants 1 to 4,
  \<open>load_task_data\<close> returns without an error; it returns one job for each
  segment; the keys of the frame index are the frame ids from
  \<open>meta_start_frame\<close> to \<open>meta_stop_frame\<close>, in ascending order; and every
  frame carries the id and the status of a job whose range covers it. The
  witness is the scenario of the claim: two segments of one job each, the frame
  range from 0 to 9 and ten frame descriptors.
\<close>

theorem load_task_data_valid:
  assumes "invariant1 task" and "invariant2 meta"
    and "invariant3 task meta" and "invariant4 task meta"
  shows "\<exists>frames. load_task_data task_id task meta = Inr (task, derive_jobs task, frames)
     \<and> length (derive_jobs task) = length (task_segments task)
     \<and> map fst frames = [meta_start_frame meta .. meta_stop_frame meta]
     \<and> fst ` set frames = {meta_start_frame meta .. meta_stop_frame meta}
     \<and> (\<forall>(k, fr) \<in> set frames. \<exists>j \<in> set (derive_jobs task).
            covers j k \<and> frame_job_id fr = Some (job_id j) \<and> frame_status fr = Some (job_status j))"
proof -
  let ?M = "merged task_id task meta"
  have keys: "map fst ?M = [meta_start_frame meta .. meta_stop_frame meta]"
    by (simp add: keys_merged index_keys_full[OF assms(2)])
  have "set (map fst ?M) = {meta_start_frame meta .. meta_stop_frame meta}"
    unfolding keys by simp
  then have kset: "fst ` set ?M = {meta_start_frame meta .. meta_stop_frame meta}"
    by simp
  have "\<exists>j \<in> set (derive_jobs task).
          covers j k \<and> frame_job_id fr = Some (job_id j) \<and> frame_status fr = Some (job_status j)"
    if kv: "(k, fr) \<in> set ?M" for k fr
  proof -
    from kv have "k \<in> set (index_keys meta)"
      using keys_merged[of task_id task meta] by (metis fst_conv image_eqI set_map)
    with assms(4) have "\<exists>j \<in> set (derive_jobs task). covers j k"
      by (simp add: invariant4_def)
    then obtain pre j post where d: "derive_jobs task = pre @ j # post" and c: "covers j k"
      and p: "\<forall>j' \<in> set post. \<not> covers j' k"
      using split_list_last_prop[of "derive_jobs task" "\<lambda>j. covers j k"] by blast
    from merged_last_cover[OF kv d c p] c d show ?thesis by auto
  qed
  then have "\<forall>(k, fr) \<in> set ?M. \<exists>j \<in> set (derive_jobs task).
            covers j k \<and> frame_job_id fr = Some (job_id j) \<and> frame_status fr = Some (job_status j)"
    by blast
  with load_task_data_ok[OF assms(1,3,4), of task_id] derive_jobs_length[OF assms(1)] keys kset
  show ?thesis by blast
qed

theorem load_task_data_valid_witness:
  "invariant1 scenario_task \<and> invariant2 scenario_meta
   \<and> invariant3 scenario_task scenario_meta \<and> invariant4 scenario_task scenario_meta
   \<and> (\<exists>frames. load_task_data 1 scenario_task scenario_meta
                   = Inr (scenario_task, derive_jobs scenario_task, frames)
        \<and> length (derive_jobs scenario_task) = 2
        \<and> map fst frames = [0, 1, 2, 3, 4, 5, 6, 7, 8, 9]
        \<and> map (\<lambda>(k, fr). frame_job_id fr) frames
            = [Some 11, Some 11, Some 11, Some 11, Some 11,
               Some 12, Some 12, Some 12, Some 12, Some 12])"
proof -
  have i1: "invariant1 scenario_task" by code_simp
  have i2: "invariant2 scenario_meta" by code_simp
  have i3: "invariant3 scenario_task scenario_meta" by code_simp
  have i4: "invariant4 scenario_task scenario_meta" by code_simp
  from load_task_data_valid[OF i1 i2 i3 i4, of 1]
  obtain frames where
    r: "load_task_data 1 scenario_task scenario_meta
          = Inr (scenario_task, derive_jobs scenario_task, frames)"
    and n: "length (derive_jobs scenario_task) = length (task_segments scenario_task)"
    and k: "map fst frames = [meta_start_frame scenario_meta .. meta_stop_frame scenario_meta]"
    by blast
  have n': "length (task_segments scenario_task) = 2" by code_simp
  have k': "[meta_start_frame scenario_meta .. meta_stop_frame scenario_meta]
              = [0, 1, 2, 3, 4, 5, 6, 7, 8, 9]" by code_simp
  have "map (\<lambda>(k, fr). frame_job_id fr)
          (snd (snd (projr (load_task_data 1 scenario_task scenario_meta))))
        = [Some 11, Some 11, Some 11, Some 11, Some 11,
           Some 12, Some 12, Some 12, Some 12, Some 12]" by code_simp
  then have j: "map (\<lambda>(k, fr). frame_job_id fr) frames
        = [Some 11, Some 11, Some 11, Some 11, Some 11,
           Some 12, Some 12, Some 12, Some 12, Some 12]" by (simp add: r)
  have n2: "length (derive_jobs scenario_task) = 2" using n n' by simp
  have k2: "map fst frames = [0, 1, 2, 3, 4, 5, 6, 7, 8, 9]" using k k' by simp
  show ?thesis using i1 i2 i3 i4 r n2 k2 j by (intro conjI exI[of _ frames])
qed

section \<open>The number of frame descriptors\<close>

text \<open>
  Claim C2, as stated, asks for an error whenever the number of frame descriptors
  differs from the length of the declared range. The code has no such check.
  With three descriptors for the range from 0 to 1 the surplus descriptor is
  dropped by the zip, and with two descriptors for the range from 0 to 2 the
  index is cut short; in both cases a job over the frames 0 and 1 makes
  \<open>load_task_data\<close> return a two-entry index.
\<close>

theorem load_task_data_count_mismatch_returns:
  "\<not> invariant2 surplus_meta
   \<and> \<not> isl (load_task_data 1 one_segment_task surplus_meta)
   \<and> map fst (snd (snd (projr (load_task_data 1 one_segment_task surplus_meta)))) = [0, 1]
   \<and> \<not> invariant2 short_meta
   \<and> \<not> isl (load_task_data 1 one_segment_task short_meta)
   \<and> map fst (snd (snd (projr (load_task_data 1 one_segment_task short_meta)))) = [0, 1]"
  by code_simp

text \<open>
  Claim C2, amended: \<open>load_task_data\<close> does not compare the number of frame
  descriptors with the length of the declared range. Whenever invariants 1, 3
  and 4 hold for the zipped index it returns without an error, and the keys of
  the returned index are the first frame ids of the declared range, as many as
  there are descriptors (all of the range when there are more descriptors than
  frame ids).
\<close>

theorem load_task_data_no_count_check:
  assumes "invariant1 task" and "invariant3 task meta" and "invariant4 task meta"
  shows "\<exists>frames. load_task_data task_id task meta = Inr (task, derive_jobs task, frames)
     \<and> map fst frames = take (length (meta_frames meta))
                           (range_py (meta_start_frame meta) (meta_stop_frame meta + 1))"
  using load_task_data_ok[OF assms, of task_id] keys_merged[of task_id task meta]
  by (simp add: index_keys_take)

theorem load_task_data_no_count_check_witness:
  "invariant1 one_segment_task \<and> invariant3 one_segment_task surplus_meta
   \<and> invariant4 one_segment_task surplus_meta
   \<and> length (meta_frames surplus_meta) = 3
   \<and> range_py (meta_start_frame surplus_meta) (meta_stop_frame surplus_meta + 1) = [0, 1]
   \<and> (\<exists>frames. load_task_data 1 one_segment_task surplus_meta
                   = Inr (one_segment_task, derive_jobs one_segment_task, frames)
        \<and> map fst frames = [0, 1])"
proof -
  have i1: "invariant1 one_segment_task" by code_simp
  have i3: "invariant3 one_segment_task surplus_meta" by code_simp
  have i4: "invariant4 one_segment_task surplus_meta" by code_simp
  have n: "length (meta_frames surplus_meta) = 3" by code_simp
  have r: "range_py (meta_start_frame surplus_meta) (meta_stop_frame surplus_meta + 1) = [0, 1]"
    by code_simp
  from load_task_data_no_count_check[OF i1 i3 i4, of 1]
  obtain frames where
    "load_task_data 1 one_segment_task surplus_meta
       = Inr (one_segment_task, derive_jobs one_segment_task, frames)"
    "map fst frames = [0, 1]"
    unfolding n r by auto
  with i1 i3 i4 n r show ?thesis by (intro conjI exI[of _ frames])
qed

section \<open>Segments with more or less than one job\<close>

text \<open>
  Claim C6, as stated, asks for the error message to name the offending segment.
  The message is a constant of the code: two tasks whose segments with two jobs
  differ (frames 0 to 4 with the jobs 41 and 42, frames 5 to 9 with the jobs 43
  and 44) fail with the same message, which mentions no segment.
\<close>

theorem segment_error_same_for_different_segments:
  "load_task_data 1 two_jobs_task_a scenario_meta
     = Inl (AssertionError ''Unexpected CVAT data: one segment has multiple jobs.'')
   \<and> load_task_data 1 two_jobs_task_b scenario_meta
     = Inl (AssertionError ''Unexpected CVAT data: one segment has multiple jobs.'')
   \<and> filter (\<lambda>x. length (seg_jobs x) \<noteq> 1) (task_segments two_jobs_task_a)
     \<noteq> filter (\<lambda>x. length (seg_jobs x) \<noteq> 1) (task_segments two_jobs_task_b)"
  by code_simp

text \<open>
  Claim C6, amended: if some segment of the task has a number of jobs different
  from one, \<open>load_task_data\<close> raises the assertion error with the fixed
  message \<^verbatim>\<open>Unexpected CVAT data: one segment has multiple jobs.\<close>, whatever
  the segment and whatever the metadata.
\<close>

theorem load_task_data_segment_assertion:
  "\<not> invariant1 task \<Longrightarrow>
   load_task_data task_id task meta
     = Inl (AssertionError ''Unexpected CVAT data: one segment has multiple jobs.'')"
  by (rule load_task_data_segment_error)

theorem load_task_data_segment_assertion_witness:
  "\<not> invariant1 two_jobs_task_a
   \<and> load_task_data 1 two_jobs_task_a scenario_meta
     = Inl (AssertionError ''Unexpected CVAT data: one segment has multiple jobs.'')"
proof -
  have "\<not> invariant1 two_jobs_task_a" by code_simp
  with load_task_data_segment_assertion[of two_jobs_task_a 1 scenario_meta] show ?thesis by simp
qed

section \<open>Frames without a job, jobs without a frame\<close>

text \<open>
  Claim C7: in a task whose segments have one job each, (a) if some job covers a
  frame id that is not a key of the frame index, \<open>load_task_data\<close> raises the
  assertion error whose message carries the id of such a job and the missing
  frame id (the first such job of the job list, and its least missing frame
  id); (b) if every job finds its frames and some frame of the index is covered
  by no job, \<open>load_task_data\<close> raises the assertion error whose message
  carries the id of such a frame (the first one in the order of the index).
\<close>

theorem load_task_data_missing_errors:
  assumes "invariant1 task"
  shows "(\<not> invariant3 task meta \<longrightarrow>
            (\<exists>pre j post f. derive_jobs task = pre @ j # post
               \<and> (\<forall>j' \<in> set pre. \<forall>f'. covers j' f' \<longrightarrow> f' \<in> set (index_keys meta))
               \<and> covers j f \<and> f \<notin> set (index_keys meta)
               \<and> (\<forall>f'. covers j f' \<and> f' < f \<longrightarrow> f' \<in> set (index_keys meta))
               \<and> load_task_data task_id task meta
                    = Inl (AssertionError
                        (''Unexpected CVAT data: job ('' @ str_int (job_id j)
                           @ '') is missing a frame ('' @ str_int f @ '').''))))
       \<and> (invariant3 task meta \<and> \<not> invariant4 task meta \<longrightarrow>
            (\<exists>as f bs. index_keys meta = as @ f # bs
               \<and> (\<forall>k \<in> set as. \<exists>j \<in> set (derive_jobs task). covers j k)
               \<and> (\<forall>j \<in> set (derive_jobs task). \<not> covers j f)
               \<and> load_task_data task_id task meta
                    = Inl (AssertionError
                        (''Unexpected CVAT data: frame ('' @ str_int f @ '') is missing job id.''))))"
  using load_task_data_missing_frame[OF assms, of meta task_id]
    load_task_data_missing_job[OF assms, of meta task_id]
  unfolding missing_frame_msg_def missing_job_msg_def by blast

theorem load_task_data_missing_errors_witness:
  "invariant1 late_task \<and> \<not> invariant3 late_task scenario_meta
   \<and> (\<exists>pre j post f. derive_jobs late_task = pre @ j # post
               \<and> (\<forall>j' \<in> set pre. \<forall>f'. covers j' f' \<longrightarrow> f' \<in> set (index_keys scenario_meta))
               \<and> covers j f \<and> f \<notin> set (index_keys scenario_meta)
               \<and> (\<forall>f'. covers j f' \<and> f' < f \<longrightarrow> f' \<in> set (index_keys scenario_meta))
               \<and> load_task_data 1 late_task scenario_meta
                    = Inl (AssertionError
                        (''Unexpected CVAT data: job ('' @ str_int (job_id j)
                           @ '') is missing a frame ('' @ str_int f @ '').'')))
   \<and> load_task_data 1 late_task scenario_meta
       = Inl (AssertionError ''Unexpected CVAT data: job (12) is missing a frame (10).'')
   \<and> invariant1 gap_task \<and> invariant3 gap_task scenario_meta \<and> \<not> invariant4 gap_task scenario_meta
   \<and> (\<exists>as f bs. index_keys scenario_meta = as @ f # bs
               \<and> (\<forall>k \<in> set as. \<exists>j \<in> set (derive_jobs gap_task). covers j k)
               \<and> (\<forall>j \<in> set (derive_jobs gap_task). \<not> covers j f)
               \<and> load_task_data 1 gap_task scenario_meta
                    = Inl (AssertionError
                        (''Unexpected CVAT data: frame ('' @ str_int f @ '') is missing job id.'')))
   \<and> load_task_data 1 gap_task scenario_meta
       = Inl (AssertionError ''Unexpected CVAT data: frame (4) is missing job id.'')"
proof -
  have a1: "invariant1 late_task" by code_simp
  have a3: "\<not> invariant3 late_task scenario_meta" by code_simp
  have b1: "invariant1 gap_task" by code_simp
  have b3: "invariant3 gap_task scenario_meta" by code_simp
  have b4: "\<not> invariant4 gap_task scenario_meta" by code_simp
  note a = load_task_data_missing_errors[OF a1, of scenario_meta 1, THEN conjunct1, THEN mp, OF a3]
  note b = load_task_data_missing_errors[OF b1, of scenario_meta 1, THEN conjunct2, THEN mp,
      OF conjI[OF b3 b4]]
  have ea: "load_task_data 1 late_task scenario_meta
       = Inl (AssertionError ''Unexpected CVAT data: job (12) is missing a frame (10).'')"
    by code_simp
  have eb: "load_task_data 1 gap_task scenario_meta
       = Inl (AssertionError ''Unexpected CVAT data: frame (4) is missing job id.'')"
    by code_simp
  show ?thesis using a1 a3 a ea b1 b3 b4 b eb by (intro conjI)
qed

section \<open>Overlapping jobs\<close>

text \<open>
  Claim C8: whenever \<open>load_task_data\<close> returns, every frame of the index
  carries the job id and the status of one and the same job, namely the last
  job of the returned job list whose range covers the frame id. So where two
  jobs overlap, the later one wins.
\<close>

theorem load_task_data_last_write_wins:
  assumes "load_task_data task_id task meta = Inr (t, jobs, frames)"
    and "(k, fr) \<in> set frames"
  shows "\<exists>pre j post. jobs = pre @ j # post \<and> covers j k \<and> (\<forall>j' \<in> set post. \<not> covers j' k)
           \<and> frame_job_id fr = Some (job_id j) \<and> frame_status fr = Some (job_status j)"
proof -
  from load_task_data_Inr[OF assms(1)]
  have i4: "invariant4 task meta" and jobs: "jobs = derive_jobs task"
    and frames: "frames = merged task_id task meta" by simp_all
  have kv: "(k, fr) \<in> set (merged task_id task meta)" using assms(2) frames by simp
  then have "k \<in> set (index_keys meta)"
    using keys_merged[of task_id task meta] by (metis fst_conv image_eqI set_map)
  with i4 have "\<exists>j \<in> set (derive_jobs task). covers j k" by (simp add: invariant4_def)
  then obtain pre j post where d: "derive_jobs task = pre @ j # post" and c: "covers j k"
    and p: "\<forall>j' \<in> set post. \<not> covers j' k"
    using split_list_last_prop[of "derive_jobs task" "\<lambda>j. covers j k"] by blast
  from merged_last_cover[OF kv d c p] d c p jobs show ?thesis by blast
qed

theorem load_task_data_last_write_wins_witness:
  "\<exists>frames fr. load_task_data 1 overlap_task scenario_meta
               = Inr (overlap_task, derive_jobs overlap_task, frames)
     \<and> map_of frames 4 = Some fr
     \<and> map job_id (derive_jobs overlap_task) = [21, 22]
     \<and> list_all (\<lambda>j. covers j 4) (derive_jobs overlap_task)
     \<and> (\<exists>pre j post. derive_jobs overlap_task = pre @ j # post \<and> covers j 4
            \<and> (\<forall>j' \<in> set post. \<not> covers j' 4)
            \<and> frame_job_id fr = Some (job_id j) \<and> frame_status fr = Some (job_status j))
     \<and> frame_job_id fr = Some 22 \<and> frame_status fr = Some ''completed''"
proof -
  let ?r = "projr (load_task_data 1 overlap_task scenario_meta)"
  let ?frames = "snd (snd ?r)"
  let ?fr = "the (map_of ?frames 4)"
  have "\<not> isl (load_task_data 1 overlap_task scenario_meta)" by code_simp
  moreover have "fst ?r = overlap_task" by code_simp
  moreover have "fst (snd ?r) = derive_jobs overlap_task" by code_simp
  ultimately have r: "load_task_data 1 overlap_task scenario_meta
               = Inr (overlap_task, derive_jobs overlap_task, ?frames)"
    by (cases "load_task_data 1 overlap_task scenario_meta") auto
  have "map_of ?frames 4 \<noteq> None" by code_simp
  then have m: "map_of ?frames 4 = Some ?fr" by auto
  have ids: "map job_id (derive_jobs overlap_task) = [21, 22]" by code_simp
  have cov: "list_all (\<lambda>j. covers j 4) (derive_jobs overlap_task)" by code_simp
  have v: "frame_job_id ?fr = Some 22" "frame_status ?fr = Some ''completed''" by code_simp+
  note w = load_task_data_last_write_wins[OF r map_of_SomeD[OF m]]
  show ?thesis using r m ids cov w v by (intro exI[of _ ?frames] exI[of _ ?fr] conjI)
qed

section \<open>A run of \<open>download_images\<close>\<close>






section \<open>The chunks of a body\<close>




section \<open>The polling loop\<close>

lemma poll_export_run:
  "\<forall>i<k. resp_status_code (export_responses e (n + i)) \<noteq> 201 \<Longrightarrow>
   resp_status_code (export_responses e (n + k)) = 201 \<Longrightarrow>
   poll_export e url n tr
     = Some (Suc (n + k),
         tr @ concat (map (\<lambda>i. Get url export_params False # round_events (export_responses e i))
                    [n..<n + k])
            @ [Get url export_params False])"
proof (induction k arbitrary: n tr)
  case 0
  then show ?case by (subst poll_export.simps) simp
next
  case (Suc k)
  from Suc.prems(1) have now: "resp_status_code (export_responses e n) \<noteq> 201"
    by (metis add.right_neutral zero_less_Suc)
  have later: "\<forall>i<k. resp_status_code (export_responses e (Suc n + i)) \<noteq> 201"
    using Suc.prems(1) by (metis Suc_less_eq add_Suc_shift)
  have last: "resp_status_code (export_responses e (Suc n + k)) = 201"
    using Suc.prems(2) by simp
  have "poll_export e url n tr
          = poll_export e url (Suc n)
              (tr @ [Get url export_params False] @ round_events (export_responses e n))"
    by (subst poll_export.simps) (simp add: now Let_def)
  also note Suc.IH[OF later last]
  finally have "poll_export e url n tr
      = Some (Suc (Suc n + k),
          (tr @ [Get url export_params False] @ round_events (export_responses e n))
          @ concat (map (\<lambda>i. Get url export_params False # round_events (export_responses e i))
                     [Suc n..<Suc n + k])
          @ [Get url export_params False])" .
  moreover have "[n..<n + Suc k] = n # [Suc n..<Suc n + k]"
    by (simp add: upt_conv_Cons del: upt_Suc)
  ultimately show ?case by (simp del: upt_Suc)
qed

lemma sleeps_of_rounds:
  "filter is_Sleep
     (concat (map (\<lambda>i. Get url export_params False # round_events (export_responses e i)) [0..<k]))
   = replicate k (Sleep 5)"
  by (induction k) (auto simp: round_events_def replicate_append_same)

lemma fetch_archive_no_sleep: "filter is_Sleep (snd (fetch_archive e task_id output_path resp)) = []"
  by (auto simp: fetch_archive_def Let_def filter_empty_conv split: option.splits)

lemma extract_images_no_sleep:
  "filter is_Sleep (snd (extract_images e task_id output_path keep resp src)) = []"
  by (auto simp: extract_images_def Let_def split: option.splits)


lemma download_images_after_poll:
  assumes "poll_export e (dataset_url e task_id) 0 [] = Some (m, polls)"
  shows "download_images e task_id output_path keep
     = Some (case fst (fetch_archive e task_id output_path (download_response e)) of
               Inl err \<Rightarrow> Inl err
             | Inr src \<Rightarrow> fst (extract_images e task_id output_path keep (download_response e) src),
             polls @ Get (dataset_url e task_id) download_params True
              # snd (fetch_archive e task_id output_path (download_response e))
              @ (case fst (fetch_archive e task_id output_path (download_response e)) of
                   Inl err \<Rightarrow> []
                 | Inr src \<Rightarrow> snd (extract_images e task_id output_path keep (download_response e) src)))"
proof -
  obtain a tr' where fa: "fetch_archive e task_id output_path (download_response e) = (a, tr')"
    by (cases "fetch_archive e task_id output_path (download_response e)")
  show ?thesis
  proof (cases a)
    case (Inl err)
    then show ?thesis using assms fa by (simp add: download_images_def Let_def)
  next
    case (Inr src)
    obtain r tr'' where
      ex: "extract_images e task_id output_path keep (download_response e) src = (r, tr'')"
      by (cases "extract_images e task_id output_path keep (download_response e) src")
    show ?thesis using assms fa Inr ex by (simp add: download_images_def Let_def)
  qed
qed



text \<open>
  Claim C5: if the export request is answered \<open>k\<close> times with a status other
  than 201 and then with 201, the loop ends and \<open>download_images\<close> goes on to
  the download request. Until then its events are, for each of the \<open>k\<close>
  answers, the request, the error log if the status is 500, and one
  \<open>Sleep 5\<close>; then the request that is answered with 201. So exactly \<open>k\<close>
  sleeps of 5 units come before the download request, and none after it. A
  status of 500 does not end the loop. The witness has the answers 202, 500,
  202 and 201: three sleeps.
\<close>

theorem export_polling_sleeps:
  assumes "\<forall>i<k. resp_status_code (export_responses e i) \<noteq> 201"
    and "resp_status_code (export_responses e k) = 201"
  shows "\<exists>r rest.
     download_images e task_id output_path keep_image_path
       = Some (r,
           concat (map (\<lambda>i. Get (dataset_url e task_id) export_params False
                              # round_events (export_responses e i)) [0..<k])
           @ Get (dataset_url e task_id) export_params False
           # Get (dataset_url e task_id) download_params True # rest)
     \<and> (\<forall>i<k. round_events (export_responses e i)
                 = (if resp_status_code (export_responses e i) = 500
                    then [LogError (resp_content (export_responses e i)), Sleep 5]
                    else [Sleep 5]))
     \<and> filter is_Sleep
           (concat (map (\<lambda>i. Get (dataset_url e task_id) export_params False
                              # round_events (export_responses e i)) [0..<k]))
         = replicate k (Sleep 5)
     \<and> filter is_Sleep rest = []"
proof -
  let ?url = "dataset_url e task_id"
  let ?polls = "concat (map (\<lambda>i. Get ?url export_params False
                              # round_events (export_responses e i)) [0..<k])"
  let ?fa = "fetch_archive e task_id output_path (download_response e)"
  have p: "poll_export e ?url 0 [] = Some (Suc k, ?polls @ [Get ?url export_params False])"
    using poll_export_run[of k e 0 ?url "[]"] assms by simp
  let ?rest = "snd ?fa @ (case fst ?fa of Inl err \<Rightarrow> []
                 | Inr src \<Rightarrow> snd (extract_images e task_id output_path keep_image_path (download_response e) src))"
  let ?r = "case fst ?fa of Inl err \<Rightarrow> Inl err
             | Inr src \<Rightarrow> fst (extract_images e task_id output_path keep_image_path (download_response e) src)"
  have d: "download_images e task_id output_path keep_image_path
     = Some (?r, ?polls @ Get ?url export_params False # Get ?url download_params True # ?rest)"
    using download_images_after_poll[OF p, of output_path keep_image_path] by simp
  have rest: "filter is_Sleep ?rest = []"
    by (cases "fst ?fa") (simp_all add: fetch_archive_no_sleep extract_images_no_sleep)
  have rounds: "\<forall>i<k. round_events (export_responses e i)
                 = (if resp_status_code (export_responses e i) = 500
                    then [LogError (resp_content (export_responses e i)), Sleep 5]
                    else [Sleep 5])"
    by (simp add: round_events_def)
  show ?thesis
    using d rounds sleeps_of_rounds[of ?url e k] rest
    by (intro exI[of _ ?r] exI[of _ ?rest] conjI)
qed

theorem export_polling_sleeps_witness:
  "map (\<lambda>i. resp_status_code (export_responses (demo_env 1) i)) [0, 1, 2, 3] = [202, 500, 202, 201]
   \<and> (\<exists>r rest.
     download_images (demo_env 1) 7 ''out'' True
       = Some (r,
           [Get ''http://cvat/api/tasks/7/dataset'' export_params False, Sleep 5,
            Get ''http://cvat/api/tasks/7/dataset'' export_params False, LogError [], Sleep 5,
            Get ''http://cvat/api/tasks/7/dataset'' export_params False, Sleep 5,
            Get ''http://cvat/api/tasks/7/dataset'' export_params False,
            Get ''http://cvat/api/tasks/7/dataset'' download_params True] @ rest)
     \<and> filter is_Sleep rest = [])"
proof -
  have a: "\<forall>i<3. resp_status_code (export_responses (demo_env 1) i) \<noteq> 201"
    by (simp add: demo_env_def status_response_def)
  have b: "resp_status_code (export_responses (demo_env 1) 3) = 201"
    by (simp add: demo_env_def status_response_def)
  have c: "map (\<lambda>i. resp_status_code (export_responses (demo_env 1) i)) [0, 1, 2, 3] = [202, 500, 202, 201]"
    by (simp add: demo_env_def status_response_def)
  have u: "dataset_url (demo_env 1) 7 = ''http://cvat/api/tasks/7/dataset''"
    by (simp add: dataset_url_def demo_env_def str_int_def str_nat.simps)
  have polls: "concat (map (\<lambda>i. Get ''http://cvat/api/tasks/7/dataset'' export_params False
                              # round_events (export_responses (demo_env 1) i)) [0..<3])
      = [Get ''http://cvat/api/tasks/7/dataset'' export_params False, Sleep 5,
         Get ''http://cvat/api/tasks/7/dataset'' export_params False, LogError [], Sleep 5,
         Get ''http://cvat/api/tasks/7/dataset'' export_params False, Sleep 5]"
    by (simp add: upt_conv_Cons round_events_def demo_env_def status_response_def)
  from export_polling_sleeps[OF a b, of 7 "''out''" True]
  obtain r rest where
    "download_images (demo_env 1) 7 ''out'' True
       = Some (r,
           concat (map (\<lambda>i. Get (dataset_url (demo_env 1) 7) export_params False
                              # round_events (export_responses (demo_env 1) i)) [0..<3])
           @ Get (dataset_url (demo_env 1) 7) export_params False
           # Get (dataset_url (demo_env 1) 7) download_params True # rest)"
    "filter is_Sleep rest = []" by blast
  then show ?thesis using c unfolding u polls by (intro conjI exI[of _ r] exI[of _ rest]) simp_all
qed

section \<open>Memory or file\<close>





section \<open>The extracted members\<close>





end
